theory Spec2Isabelle
  imports Complex_Main "HOL-Library.Char_ord" "HOL-Library.List_Lexorder"
begin

section \<open>JavaScript values, errors and outcomes\<close>

text \<open>
  A field read from a parsed \<^verbatim>\<open>package.json\<close> may hold any JSON value, or be missing
  (\<^verbatim>\<open>undefined\<close>). Objects and arrays are kept opaque: the program only tests them for
  truthiness. A number is kept up to its value; \<^verbatim>\<open>JSON.parse\<close> never yields NaN, and both
  zeros are the number \<open>0\<close>.
\<close>

datatype js_value = JUndefined | JNull | JBool bool | JNum rat | JStr string | JObject

fun truthy :: "js_value \<Rightarrow> bool" where
  "truthy JUndefined = False"
| "truthy JNull = False"
| "truthy (JBool b) = b"
| "truthy (JNum n) = (n \<noteq> 0)"
| "truthy (JStr s) = (s \<noteq> [])"
| "truthy JObject = True"

text \<open>
  \<open>Error msg\<close> is \<^verbatim>\<open>new Error(msg)\<close>; \<open>TypeError\<close> is what \<^verbatim>\<open>path.join\<close> throws on an
  argument that is not a string; \<open>Foreign\<close> is a failure raised by a collaborator
  (\<^verbatim>\<open>glob\<close>, \<^verbatim>\<open>fs.stat\<close>, \<^verbatim>\<open>require\<close>), passed on unchanged.
\<close>

datatype js_error = Error string | TypeError | Foreign string

text \<open>
  What a caller of an entry point observes: the synchronous one returns or throws, the
  asynchronous one hands out a promise that is resolved or rejected.
\<close>

datatype 'a outcome = Returned 'a | Thrown js_error | Resolved 'a | Rejected js_error

section \<open>Node's \<^verbatim>\<open>path\<close> module (POSIX flavour)\<close>

text \<open>
  Paths are strings of code units below 256, compared unit by unit, which is the order of
  \<^verbatim>\<open>Array.prototype.sort\<close> without a comparator. \<open>dirname\<close>, \<open>basename\<close>, \<open>normalize\<close> and
  \<open>path_join\<close> follow the POSIX implementation of Node's \<^verbatim>\<open>path\<close>.
\<close>

definition isSep :: "char \<Rightarrow> bool" where
  "isSep ch = (ch = CHR ''/'')"

definition isAbsolute :: "string \<Rightarrow> bool" where
  "isAbsolute p = (case p of [] \<Rightarrow> False | c0 # _ \<Rightarrow> isSep c0)"

definition dirname :: "string \<Rightarrow> string" where
  "dirname p =
     (case p of
        [] \<Rightarrow> ''.''
      | c0 # rest \<Rightarrow>
          (case dropWhile (\<lambda>ch. \<not> isSep ch) (dropWhile isSep (rev rest)) of
             [] \<Rightarrow> (if isSep c0 then ''/'' else ''.'')
           | _ # front \<Rightarrow> (if isSep c0 \<and> front = [] then ''//'' else c0 # rev front)))"

definition basename :: "string \<Rightarrow> string" where
  "basename p = rev (takeWhile (\<lambda>ch. \<not> isSep ch) (dropWhile isSep (rev p)))"

fun splitSep :: "string \<Rightarrow> string list" where
  "splitSep [] = [[]]"
| "splitSep (ch # cs) =
     (if isSep ch then [] # splitSep cs
      else (case splitSep cs of seg # segs \<Rightarrow> (ch # seg) # segs | [] \<Rightarrow> [[ch]]))"

fun joinSep :: "string list \<Rightarrow> string" where
  "joinSep [] = []"
| "joinSep [seg] = seg"
| "joinSep (seg # segs) = seg @ ''/'' @ joinSep segs"

fun normalizeSegments :: "bool \<Rightarrow> string list \<Rightarrow> string list \<Rightarrow> string list" where
  "normalizeSegments allowAboveRoot res [] = res"
| "normalizeSegments allowAboveRoot res (seg # segs) =
     (if seg = [] \<or> seg = ''.'' then normalizeSegments allowAboveRoot res segs
      else if seg = ''..'' then
        (if res \<noteq> [] \<and> last res \<noteq> ''..''
           then normalizeSegments allowAboveRoot (butlast res) segs
         else if allowAboveRoot then normalizeSegments allowAboveRoot (res @ [''..'']) segs
         else normalizeSegments allowAboveRoot res segs)
      else normalizeSegments allowAboveRoot (res @ [seg]) segs)"

definition normalize :: "string \<Rightarrow> string" where
  "normalize p =
     (if p = [] then ''.''
      else
        (let absolute = isSep (hd p);
             trailingSeparator = isSep (last p);
             body = joinSep (normalizeSegments (\<not> absolute) [] (splitSep p));
             body1 = (if body = [] \<and> \<not> absolute then ''.'' else body);
             body2 = (if body1 \<noteq> [] \<and> trailingSeparator then body1 @ ''/'' else body1)
         in if absolute then CHR ''/'' # body2 else body2))"

definition path_join :: "string \<Rightarrow> string \<Rightarrow> string" where
  "path_join a b =
     (if a = [] \<and> b = [] then ''.''
      else normalize (if a = [] then b else if b = [] then a else a @ ''/'' @ b))"

text \<open>\<^verbatim>\<open>s.charAt(0) === '@'\<close>: of the empty string, \<^verbatim>\<open>charAt(0)\<close> is the empty string.\<close>

definition startsWithAt :: "string \<Rightarrow> bool" where
  "startsWithAt s = (take 1 s = ''@'')"

section \<open>Data model\<close>

text \<open>The object \<^verbatim>\<open>require\<close> yields for a \<^verbatim>\<open>package.json\<close>, as far as it is read.\<close>

record manifest =
  json_main :: js_value
  json_name :: js_value
  json_version :: js_value

text \<open>\<^verbatim>\<open>pacscan~Package\<close>; \<open>main\<close> is a path or \<^verbatim>\<open>null\<close>.\<close>

record package =
  directory :: string
  main :: "string option"
  name :: js_value
  version :: js_value

text \<open>The options of \<^verbatim>\<open>knockknock\<close> that the program touches.\<close>

record knockknock_options =
  excludes :: "string list option"
  limit :: "nat option"

text \<open>\<^verbatim>\<open>pacscan~Options\<close>; \<open>includeParents\<close> is the truthiness of the option.\<close>

record options =
  includeParents :: bool
  knockknock :: "knockknock_options option"
  path :: "string option"

text \<open>An entry of the list that \<^verbatim>\<open>knockknock\<close> answers with.\<close>

record caller =
  caller_file :: "string option"
  caller_package :: "package option"

text \<open>
  The collaborators, as functions of the file system and the call stack. Each has a
  blocking and a promise-returning variant in the source, chosen by \<^verbatim>\<open>this._sync\<close>; both
  give the same answer, so one function stands for the pair.
  \<^item> \<open>pkgDir\<close>: \<^verbatim>\<open>pkg-dir\<close>, the nearest enclosing directory holding a \<^verbatim>\<open>package.json\<close>,
    or \<^verbatim>\<open>null\<close>; its argument may be \<^verbatim>\<open>null\<close>.
  \<^item> \<open>glob\<close>: the matches of a pattern below \<^verbatim>\<open>cwd\<close> with \<^verbatim>\<open>nodir\<close> and \<^verbatim>\<open>nosort\<close>, or the error.
  \<^item> \<open>isDirectory\<close>: \<^verbatim>\<open>fs.stat(p).isDirectory()\<close>, or the error of \<^verbatim>\<open>stat\<close>.
  \<^item> \<open>require\<close>: the parsed manifest at a path, or the error.
  \<^item> \<open>whoIsThere\<close>: the callers found by \<^verbatim>\<open>knockknock\<close>.
\<close>

record env =
  pkgDir :: "string option \<Rightarrow> string option"
  glob :: "string \<Rightarrow> string option \<Rightarrow> js_error + string list"
  isDirectory :: "string \<Rightarrow> js_error + bool"
  require :: "string \<Rightarrow> js_error + manifest"
  whoIsThere :: "knockknock_options \<Rightarrow> caller list"

text \<open>
  The two module-level caches. The first is keyed by the base directory handed to the
  enumeration, which may be \<^verbatim>\<open>null\<close>; the second only ever stores a non-null directory.
\<close>

record caches =
  availablePackagesCache :: "string option \<rightharpoonup> string list"
  parentPackageDirectoriesCache :: "string \<rightharpoonup> string"

definition emptyCaches :: caches where
  "emptyCaches = \<lparr>availablePackagesCache = Map.empty, parentPackageDirectoriesCache = Map.empty\<rparr>"

section \<open>The class PacScan\<close>

text \<open>
  The methods are written once, in callback style, for both modes; a callback is called
  once, last, with the value found, so each method is modelled in direct style with that
  value as its result. A failure is a result \<open>Inl\<close>: thrown in the synchronous mode, the
  rejection of the promise in the asynchronous one.

  \<^verbatim>\<open>_findPackagePathsSync\<close> runs the searches one after the other and concatenates what
  they find. \<^verbatim>\<open>_findPackagePaths\<close> starts them together and concatenates the same lists in
  the same order; when both fail, the failure it reports is the one that arrives first,
  taken here to be that of the first pattern.
\<close>

fun findPackagePathsSync ::
  "env \<Rightarrow> string list \<Rightarrow> string option \<Rightarrow> string list \<Rightarrow> js_error + string list" where
  "findPackagePathsSync E [] cwd filePaths = Inr filePaths"
| "findPackagePathsSync E (pattern # patterns) cwd filePaths =
     (case glob E pattern cwd of
        Inl e \<Rightarrow> Inl e
      | Inr found \<Rightarrow> findPackagePathsSync E patterns cwd (filePaths @ found))"

definition getPackage :: "env \<Rightarrow> string \<Rightarrow> js_error + package" where
  "getPackage E dirPath =
     (case require E (path_join dirPath ''package.json'') of
        Inl e \<Rightarrow> Inl e
      | Inr pkg \<Rightarrow>
          (if truthy (json_main pkg) then
             (case json_main pkg of
                JStr m \<Rightarrow> Inr \<lparr>directory = dirPath, main = Some (path_join dirPath m),
                               name = json_name pkg, version = json_version pkg\<rparr>
              | _ \<Rightarrow> Inl TypeError)
           else Inr \<lparr>directory = dirPath, main = None,
                     name = json_name pkg, version = json_version pkg\<rparr>))"

definition parseOptions :: "options option \<Rightarrow> options" where
  "parseOptions given =
     (case given of
        None \<Rightarrow> \<lparr>includeParents = False, knockknock = None, path = None\<rparr>
      | Some opts \<Rightarrow> \<lparr>includeParents = includeParents opts, knockknock = knockknock opts,
                      path = path opts\<rparr>)"

definition patterns :: "string list" where
  "patterns = [''**/node_modules/*/package.json'', ''**/node_modules/@*/*/package.json'']"

definition findPackageDirectory :: "env \<Rightarrow> string option \<Rightarrow> string option" where
  "findPackageDirectory E filePath = pkgDir E filePath"

definition isPackageDirectory :: "env \<Rightarrow> string option \<Rightarrow> bool" where
  "isPackageDirectory E filePath = (filePath = findPackageDirectory E filePath)"

text \<open>
  \<^verbatim>\<open>.map((filePath) => path.join(dirPath, filePath))\<close>: with a \<^verbatim>\<open>null\<close> directory, the first
  element makes \<^verbatim>\<open>path.join\<close> throw; no element, no call.
\<close>

fun joinAll :: "string option \<Rightarrow> string list \<Rightarrow> js_error + string list" where
  "joinAll None [] = Inr []"
| "joinAll None (filePath # filePaths) = Inl TypeError"
| "joinAll (Some dirPath) filePaths = Inr (map (path_join dirPath) filePaths)"

definition findAvailablePackagePaths ::
  "env \<Rightarrow> caches \<Rightarrow> string option \<Rightarrow> (js_error + string list) \<times> caches" where
  "findAvailablePackagePaths E c dirPath =
     (case availablePackagesCache c dirPath of
        Some filePaths \<Rightarrow> (Inr filePaths, c)
      | None \<Rightarrow>
          (case findPackagePathsSync E patterns dirPath [] of
             Inl e \<Rightarrow> (Inl e, c)
           | Inr found \<Rightarrow>
               (let filePaths =
                      (if isPackageDirectory E dirPath then ''package.json'' # found else found)
                in case joinAll dirPath (sort filePaths) of
                     Inl e \<Rightarrow> (Inl e, c)
                   | Inr joined \<Rightarrow>
                       (Inr joined,
                        c\<lparr>availablePackagesCache := (availablePackagesCache c)(dirPath \<mapsto> joined)\<rparr>))))"

text \<open>Lines 302 to 308: the directory whose name is tested, and that name.\<close>

definition climbTarget :: "string \<Rightarrow> string \<times> string" where
  "climbTarget childDirPath =
     (let parentDirPath = dirname childDirPath;
          parentDirName = basename parentDirPath
      in if startsWithAt parentDirName
         then (dirname parentDirPath, basename (dirname parentDirPath))
         else (parentDirPath, parentDirName))"

text \<open>The callback handed to the recursive call of \<^verbatim>\<open>_findBaseDirectory\<close>.\<close>

definition keepCandidate :: "string \<Rightarrow> string option \<times> caches \<Rightarrow> (string option \<times> caches) option" where
  "keepCandidate childDirPath r =
     (case fst r of
        Some parentPkgDirPath \<Rightarrow> Some (Some parentPkgDirPath, snd r)
      | None \<Rightarrow> Some (Some childDirPath, snd r))"

text \<open>
  \<^verbatim>\<open>_findBaseDirectory\<close>, with the callback's argument as the result. \<open>None\<close> is a climb
  that never comes back.
\<close>

partial_function (option) findBaseDirectory ::
  "env \<Rightarrow> caches \<Rightarrow> string \<Rightarrow> (string option \<times> caches) option" where
  "findBaseDirectory E c dirPath =
     (case parentPackageDirectoriesCache c dirPath of
        Some cached \<Rightarrow> Some (Some cached, c)
      | None \<Rightarrow>
          (case findPackageDirectory E (Some dirPath) of
             None \<Rightarrow> Some (None, c)
           | Some childDirPath \<Rightarrow>
               (if snd (climbTarget childDirPath) = ''node_modules''
                then Option.bind (findBaseDirectory E c (fst (climbTarget childDirPath)))
                       (keepCandidate childDirPath)
                else Some (Some childDirPath,
                       c\<lparr>parentPackageDirectoriesCache :=
                           (parentPackageDirectoriesCache c)(dirPath \<mapsto> childDirPath)\<rparr>))))"

declare findBaseDirectory.simps [code]

definition findCaller :: "env \<Rightarrow> options \<Rightarrow> caller option" where
  "findCaller E opts =
     (let given = (case knockknock opts of
                     None \<Rightarrow> \<lparr>excludes = None, limit = None\<rparr>
                   | Some k \<Rightarrow> k);
          limited = given\<lparr>limit := Some 1\<rparr>;
          kk = limited\<lparr>excludes :=
                 Some (case excludes limited of
                         Some extra \<Rightarrow> [''pacscan''] @ extra
                       | None \<Rightarrow> [''pacscan''])\<rparr>
      in case whoIsThere E kk of [] \<Rightarrow> None | first # _ \<Rightarrow> Some first)"

definition resolvePackageFromCaller ::
  "env \<Rightarrow> options \<Rightarrow> js_error + (string option \<times> package option)" where
  "resolvePackageFromCaller E opts =
     (case findCaller E opts of
        None \<Rightarrow> Inr (None, None)
      | Some who \<Rightarrow> Inr (caller_file who, caller_package who))"

definition resolvePackageFromPath ::
  "env \<Rightarrow> options \<Rightarrow> js_error + (string option \<times> package option)" where
  "resolvePackageFromPath E opts =
     (case findPackageDirectory E (path opts) of
        None \<Rightarrow> Inr (path opts, None)
      | Some dirPath \<Rightarrow>
          (case getPackage E dirPath of
             Inl e \<Rightarrow> Inl e
           | Inr pkg \<Rightarrow> Inr (path opts, Some pkg)))"

definition missingSourceFile :: js_error where
  "missingSourceFile = Error ''Could not resolve base directory as file was missing''"

definition resolveBaseDirectory ::
  "env \<Rightarrow> options \<Rightarrow> caches \<Rightarrow> ((js_error + string option) \<times> caches) option" where
  "resolveBaseDirectory E opts c =
     (case (if path opts \<noteq> None then resolvePackageFromPath E opts
            else resolvePackageFromCaller E opts) of
        Inl e \<Rightarrow> Some (Inl e, c)
      | Inr (filePath, pkg) \<Rightarrow>
          (case filePath of
             None \<Rightarrow> Some (Inl missingSourceFile, c)
           | Some file \<Rightarrow>
               (case pkg of
                  None \<Rightarrow>
                    (case isDirectory E file of
                       Inl e \<Rightarrow> Some (Inl e, c)
                     | Inr isDir \<Rightarrow> Some (Inr (Some (if isDir then file else dirname file)), c))
                | Some p \<Rightarrow>
                    (if \<not> includeParents opts then Some (Inr (Some (directory p)), c)
                     else map_option (\<lambda>r. (Inr (fst r), snd r))
                            (findBaseDirectory E c (directory p))))))"

text \<open>\<^verbatim>\<open>filePaths.map(...)\<close> in \<^verbatim>\<open>scan\<close>: the first manifest that fails ends the scan.\<close>

fun readPackages :: "env \<Rightarrow> string list \<Rightarrow> js_error + package list" where
  "readPackages E [] = Inr []"
| "readPackages E (filePath # filePaths) =
     (case getPackage E (dirname filePath) of
        Inl e \<Rightarrow> Inl e
      | Inr pkg \<Rightarrow>
          (case readPackages E filePaths of
             Inl e \<Rightarrow> Inl e
           | Inr pkgs \<Rightarrow> Inr (pkg # pkgs)))"

text \<open>The callback that \<^verbatim>\<open>scan\<close> hands to \<^verbatim>\<open>_resolveBaseDirectory\<close>.\<close>

definition scanDirectory ::
  "env \<Rightarrow> caches \<Rightarrow> string option \<Rightarrow> (js_error + package list) \<times> caches" where
  "scanDirectory E c dirPath =
     (case findAvailablePackagePaths E c dirPath of
        (Inl e, c1) \<Rightarrow> (Inl e, c1)
      | (Inr filePaths, c1) \<Rightarrow> (readPackages E filePaths, c1))"

definition PacScan_scan ::
  "env \<Rightarrow> options \<Rightarrow> caches \<Rightarrow> ((js_error + package list) \<times> caches) option" where
  "PacScan_scan E opts c =
     (case resolveBaseDirectory E opts c of
        None \<Rightarrow> None
      | Some (Inl e, c1) \<Rightarrow> Some (Inl e, c1)
      | Some (Inr dirPath, c1) \<Rightarrow> Some (scanDirectory E c1 dirPath))"

section \<open>The module's exports\<close>

definition scan ::
  "env \<Rightarrow> options option \<Rightarrow> caches \<Rightarrow> (package list outcome \<times> caches) option" where
  "scan E given c =
     map_option (\<lambda>r. (case fst r of Inl e \<Rightarrow> Rejected e | Inr pkgs \<Rightarrow> Resolved pkgs, snd r))
       (PacScan_scan E (parseOptions given) c)"

definition sync ::
  "env \<Rightarrow> options option \<Rightarrow> caches \<Rightarrow> (package list outcome \<times> caches) option" where
  "sync E given c =
     map_option (\<lambda>r. (case fst r of Inl e \<Rightarrow> Thrown e | Inr pkgs \<Rightarrow> Returned pkgs, snd r))
       (PacScan_scan E (parseOptions given) c)"

definition clearCache :: "caches \<Rightarrow> caches" where
  "clearCache c = \<lparr>availablePackagesCache = Map.empty, parentPackageDirectoriesCache = Map.empty\<rparr>"

section \<open>Well-behaved collaborators and consistent caches\<close>

text \<open>
  What \<^verbatim>\<open>pkg-dir\<close> guarantees: its answer is an absolute path, and for an absolute
  argument it is the argument or one of its ancestors, hence no longer than it.
\<close>

definition ancestorLocator :: "env \<Rightarrow> bool" where
  "ancestorLocator E =
     (\<forall>d found. pkgDir E (Some d) = Some found \<longrightarrow>
        isAbsolute found \<and> (isAbsolute d \<longrightarrow> length found \<le> length d))"

text \<open>
  The caches hold what a search of the file system would find: an enumeration entry is
  the list computed for its directory, a climb entry is the package directory found for
  its key, one that lies under no \<^verbatim>\<open>node_modules\<close>.
\<close>

definition cachesConsistent :: "env \<Rightarrow> caches \<Rightarrow> bool" where
  "cachesConsistent E c =
     ((\<forall>d filePaths. availablePackagesCache c d = Some filePaths \<longrightarrow>
          fst (findAvailablePackagePaths E emptyCaches d) = Inr filePaths) \<and>
      (\<forall>d found. parentPackageDirectoriesCache c d = Some found \<longrightarrow>
          pkgDir E (Some d) = Some found \<and> snd (climbTarget found) \<noteq> ''node_modules''))"









section \<open>Fixtures\<close>

text \<open>
  A file system given by its package directories: \<^verbatim>\<open>pkg-dir\<close> walks up from a path until
  it meets one of them or the walk stops moving.
\<close>

fun nearestPackageDir :: "string list \<Rightarrow> nat \<Rightarrow> string \<Rightarrow> string option" where
  "nearestPackageDir dirs 0 p = None"
| "nearestPackageDir dirs (Suc n) p =
     (if p \<in> set dirs then Some p
      else if dirname p = p then None
      else nearestPackageDir dirs n (dirname p))"

definition fixturePkgDir :: "string list \<Rightarrow> string option \<Rightarrow> string option" where
  "fixturePkgDir dirs p =
     (case p of None \<Rightarrow> None | Some q \<Rightarrow> nearestPackageDir dirs (Suc (length q)) q)"

definition fixtureRequire :: "(string \<times> manifest) list \<Rightarrow> string \<Rightarrow> js_error + manifest" where
  "fixtureRequire files p =
     (case map_of files p of None \<Rightarrow> Inl (Foreign ''MODULE_NOT_FOUND'') | Some m \<Rightarrow> Inr m)"

text \<open>The fixture \<^verbatim>\<open>flat\<close> of the test suite, copied below \<^verbatim>\<open>/fixtures\<close>.\<close>

definition flatDirs :: "string list" where
  "flatDirs =
     [''/fixtures/flat'',
      ''/fixtures/flat/node_modules/foo'',
      ''/fixtures/flat/node_modules/bar'',
      ''/fixtures/flat/node_modules/@fu/fizz'',
      ''/fixtures/flat/node_modules/@fu/buzz'',
      ''/fixtures/flat/node_modules/@baz/fizz'',
      ''/fixtures/flat/node_modules/@baz/buzz'']"

definition flatGlob :: "string \<Rightarrow> string option \<Rightarrow> js_error + string list" where
  "flatGlob pattern cwd =
     (if cwd = Some ''/fixtures/flat'' then
        (if pattern = ''**/node_modules/*/package.json''
           then Inr [''node_modules/foo/package.json'', ''node_modules/bar/package.json'']
         else if pattern = ''**/node_modules/@*/*/package.json''
           then Inr [''node_modules/@fu/fizz/package.json'',
                     ''node_modules/@fu/buzz/package.json'',
                     ''node_modules/@baz/fizz/package.json'',
                     ''node_modules/@baz/buzz/package.json'']
         else Inr [])
      else Inr [])"

definition flatManifests :: "(string \<times> manifest) list" where
  "flatManifests =
     [(''/fixtures/flat/package.json'',
         \<lparr>json_main = JStr ''index.js'', json_name = JStr ''flat'',
          json_version = JStr ''1.0.0''\<rparr>),
      (''/fixtures/flat/node_modules/foo/package.json'',
         \<lparr>json_main = JStr ''index.js'', json_name = JStr ''foo'',
          json_version = JStr ''1.1.0''\<rparr>),
      (''/fixtures/flat/node_modules/bar/package.json'',
         \<lparr>json_main = JStr ''index'', json_name = JStr ''bar'',
          json_version = JStr ''1.2.0''\<rparr>),
      (''/fixtures/flat/node_modules/@fu/fizz/package.json'',
         \<lparr>json_main = JStr ''index.js'', json_name = JStr ''@fu/fizz'',
          json_version = JStr ''1.3.1''\<rparr>),
      (''/fixtures/flat/node_modules/@fu/buzz/package.json'',
         \<lparr>json_main = JStr ''index.js'', json_name = JStr ''@fu/buzz'',
          json_version = JStr ''1.3.2''\<rparr>),
      (''/fixtures/flat/node_modules/@baz/fizz/package.json'',
         \<lparr>json_main = JUndefined, json_name = JStr ''@baz/fizz'',
          json_version = JStr ''1.4.1''\<rparr>),
      (''/fixtures/flat/node_modules/@baz/buzz/package.json'',
         \<lparr>json_main = JStr ''index.js'', json_name = JStr ''@baz/buzz'',
          json_version = JStr ''1.4.2''\<rparr>)]"

definition flatPackage :: package where
  "flatPackage =
     \<lparr>directory = ''/fixtures/flat'', main = Some ''/fixtures/flat/index.js'',
      name = JStr ''flat'', version = JStr ''1.0.0''\<rparr>"

text \<open>
  The caller is \<^verbatim>\<open>flat/index.js\<close>; the answer of \<^verbatim>\<open>knockknock\<close> is empty once the
  exclusions name the package \<^verbatim>\<open>flat\<close> itself.
\<close>

definition flatWhoIsThere :: "knockknock_options \<Rightarrow> caller list" where
  "flatWhoIsThere kk =
     (if ''flat'' \<in> set (case excludes kk of None \<Rightarrow> [] | Some names \<Rightarrow> names) then []
      else [\<lparr>caller_file = Some ''/fixtures/flat/index.js'',
             caller_package = Some flatPackage\<rparr>])"

definition flatEnv :: env where
  "flatEnv =
     \<lparr>pkgDir = fixturePkgDir flatDirs,
      glob = flatGlob,
      isDirectory = (\<lambda>p. Inr (p \<in> set flatDirs)),
      require = fixtureRequire flatManifests,
      whoIsThere = flatWhoIsThere\<rparr>"

definition flatExpected :: "package list" where
  "flatExpected =
     [\<lparr>directory = ''/fixtures/flat/node_modules/@baz/buzz'',
       main = Some ''/fixtures/flat/node_modules/@baz/buzz/index.js'',
       name = JStr ''@baz/buzz'', version = JStr ''1.4.2''\<rparr>,
      \<lparr>directory = ''/fixtures/flat/node_modules/@baz/fizz'', main = None,
       name = JStr ''@baz/fizz'', version = JStr ''1.4.1''\<rparr>,
      \<lparr>directory = ''/fixtures/flat/node_modules/@fu/buzz'',
       main = Some ''/fixtures/flat/node_modules/@fu/buzz/index.js'',
       name = JStr ''@fu/buzz'', version = JStr ''1.3.2''\<rparr>,
      \<lparr>directory = ''/fixtures/flat/node_modules/@fu/fizz'',
       main = Some ''/fixtures/flat/node_modules/@fu/fizz/index.js'',
       name = JStr ''@fu/fizz'', version = JStr ''1.3.1''\<rparr>,
      \<lparr>directory = ''/fixtures/flat/node_modules/bar'',
       main = Some ''/fixtures/flat/node_modules/bar/index'',
       name = JStr ''bar'', version = JStr ''1.2.0''\<rparr>,
      \<lparr>directory = ''/fixtures/flat/node_modules/foo'',
       main = Some ''/fixtures/flat/node_modules/foo/index.js'',
       name = JStr ''foo'', version = JStr ''1.1.0''\<rparr>,
      flatPackage]"

text \<open>The base package with an empty \<^verbatim>\<open>main\<close>, and with none.\<close>

definition emptyMainEnv :: env where
  "emptyMainEnv = flatEnv\<lparr>require := fixtureRequire
      [(''/fixtures/flat/package.json'',
        \<lparr>json_main = JStr [], json_name = JStr ''flat'', json_version = JStr ''1.0.0''\<rparr>)]\<rparr>"

definition noMainEnv :: env where
  "noMainEnv = flatEnv\<lparr>require := fixtureRequire
      [(''/fixtures/flat/package.json'',
        \<lparr>json_main = JUndefined, json_name = JStr ''flat'', json_version = JStr ''1.0.0''\<rparr>)]\<rparr>"

text \<open>
  The fixture \<^verbatim>\<open>unpackaged\<close>: a dependency \<^verbatim>\<open>foo\<close> under a \<^verbatim>\<open>node_modules\<close> that
  belongs to no package.
\<close>

definition orphanEnv :: env where
  "orphanEnv = flatEnv\<lparr>pkgDir := fixturePkgDir [''/fixtures/unpackaged/node_modules/foo'']\<rparr>"

text \<open>A scan from inside the dependency \<^verbatim>\<open>foo\<close> of \<^verbatim>\<open>flat\<close>, parents included.\<close>

definition fooOptions :: options where
  "fooOptions = \<lparr>includeParents = True, knockknock = None,
      path = Some ''/fixtures/flat/node_modules/foo/index.js''\<rparr>"

text \<open>
  A base package \<^verbatim>\<open>mixed\<close> whose dependencies sit in two sub-directories, one sorting
  below \<^verbatim>\<open>package.json\<close> and one above it.
\<close>

definition mixedGlob :: "string \<Rightarrow> string option \<Rightarrow> js_error + string list" where
  "mixedGlob pattern cwd =
     (if cwd = Some ''/fixtures/mixed'' \<and> pattern = ''**/node_modules/*/package.json''
      then Inr [''zz/node_modules/y/package.json'', ''apps/node_modules/x/package.json'']
      else Inr [])"

definition mixedManifests :: "(string \<times> manifest) list" where
  "mixedManifests =
     [(''/fixtures/mixed/package.json'',
         \<lparr>json_main = JStr ''index.js'', json_name = JStr ''mixed'',
          json_version = JStr ''1.0.0''\<rparr>),
      (''/fixtures/mixed/apps/node_modules/x/package.json'',
         \<lparr>json_main = JUndefined, json_name = JStr ''x'', json_version = JStr ''0.1.0''\<rparr>),
      (''/fixtures/mixed/zz/node_modules/y/package.json'',
         \<lparr>json_main = JUndefined, json_name = JStr ''y'', json_version = JStr ''0.2.0''\<rparr>)]"

definition mixedEnv :: env where
  "mixedEnv =
     \<lparr>pkgDir = fixturePkgDir [''/fixtures/mixed'', ''/fixtures/mixed/apps/node_modules/x'',
                 ''/fixtures/mixed/zz/node_modules/y''],
      glob = mixedGlob,
      isDirectory = (\<lambda>p. Inr (p = ''/fixtures/mixed'')),
      require = fixtureRequire mixedManifests,
      whoIsThere = (\<lambda>kk. [])\<rparr>"

definition mixedOptions :: options where
  "mixedOptions = \<lparr>includeParents = False, knockknock = None,
      path = Some ''/fixtures/mixed/index.js''\<rparr>"

definition mixedPackage :: package where
  "mixedPackage =
     \<lparr>directory = ''/fixtures/mixed'', main = Some ''/fixtures/mixed/index.js'',
      name = JStr ''mixed'', version = JStr ''1.0.0''\<rparr>"

definition mixedExpected :: "package list" where
  "mixedExpected =
     [\<lparr>directory = ''/fixtures/mixed/apps/node_modules/x'', main = None,
       name = JStr ''x'', version = JStr ''0.1.0''\<rparr>,
      mixedPackage,
      \<lparr>directory = ''/fixtures/mixed/zz/node_modules/y'', main = None,
       name = JStr ''y'', version = JStr ''0.2.0''\<rparr>]"

text \<open>
  The fixture \<^verbatim>\<open>flat\<close> with one more manifest, in the sub-directory \<^verbatim>\<open>pkg\<close> of a
  dependency \<^verbatim>\<open>lib\<close>: a package directory whose parent is not \<^verbatim>\<open>node_modules\<close> while
  its grandparent is.
\<close>

definition strayEnv :: env where
  "strayEnv = flatEnv\<lparr>pkgDir :=
      fixturePkgDir [''/fixtures/flat'', ''/fixtures/flat/node_modules/lib/pkg'']\<rparr>"

section \<open>The package metadata reader\<close>

text \<open>
  C10. A manifest whose \<^verbatim>\<open>main\<close> is present but falsy (the empty string, for one) gives
  a record whose \<open>main\<close> is \<^verbatim>\<open>null\<close>, the very record of a manifest without the field;
  a record has a \<open>main\<close> path only for a truthy field, and it is that field joined onto
  the package directory.
\<close>

theorem getPackage_falsy_main:
  assumes "require E (path_join dirPath ''package.json'') = Inr pkg"
    and "require E' (path_join dirPath ''package.json'') = Inr (pkg\<lparr>json_main := JUndefined\<rparr>)"
  shows "(\<not> truthy (json_main pkg) \<longrightarrow>
            getPackage E dirPath =
              Inr \<lparr>directory = dirPath, main = None, name = json_name pkg,
                   version = json_version pkg\<rparr> \<and>
            getPackage E dirPath = getPackage E' dirPath) \<and>
         (\<forall>p. getPackage E dirPath = Inr p \<longrightarrow>
            (case main p of
               None \<Rightarrow> \<not> truthy (json_main pkg)
             | Some joined \<Rightarrow> truthy (json_main pkg) \<and>
                 (\<exists>m. json_main pkg = JStr m \<and> joined = path_join dirPath m)))"
  using assms by (auto simp: getPackage_def split: js_value.splits)

theorem getPackage_falsy_main_witness:
  "\<not> truthy (JStr []) \<and>
   getPackage emptyMainEnv ''/fixtures/flat'' =
     Inr \<lparr>directory = ''/fixtures/flat'', main = None, name = JStr ''flat'',
          version = JStr ''1.0.0''\<rparr> \<and>
   getPackage emptyMainEnv ''/fixtures/flat'' = getPackage noMainEnv ''/fixtures/flat''"
proof -
  let ?pkg = "\<lparr>json_main = JStr [], json_name = JStr ''flat'', json_version = JStr ''1.0.0''\<rparr>"
  have r: "require emptyMainEnv (path_join ''/fixtures/flat'' ''package.json'') = Inr ?pkg"
    by code_simp
  have r': "require noMainEnv (path_join ''/fixtures/flat'' ''package.json'') =
      Inr (?pkg\<lparr>json_main := JUndefined\<rparr>)"
    by code_simp
  have "\<not> truthy (json_main ?pkg)"
    by simp
  with getPackage_falsy_main [OF r r'] show ?thesis
    by auto
qed

section \<open>Resolving the base directory\<close>

text \<open>
  C4. With no \<^verbatim>\<open>path\<close> option and no caller found, the synchronous entry point throws
  and the asynchronous one rejects, both with the same fixed message; nothing else is
  produced and the caches stay as they were.
\<close>

theorem missing_source_file:
  assumes "path (parseOptions given) = None"
    and "findCaller E (parseOptions given) = None"
  shows "sync E given c =
           Some (Thrown (Error ''Could not resolve base directory as file was missing''), c) \<and>
         scan E given c =
           Some (Rejected (Error ''Could not resolve base directory as file was missing''), c)"
  using assms
  by (simp add: sync_def scan_def PacScan_scan_def resolveBaseDirectory_def
      resolvePackageFromCaller_def missingSourceFile_def)

theorem missing_source_file_witness:
  "path (parseOptions (Some \<lparr>includeParents = True,
       knockknock = Some \<lparr>excludes = Some [''flat''], limit = None\<rparr>, path = None\<rparr>)) = None \<and>
   findCaller flatEnv (parseOptions (Some \<lparr>includeParents = True,
       knockknock = Some \<lparr>excludes = Some [''flat''], limit = None\<rparr>, path = None\<rparr>)) = None \<and>
   sync flatEnv (Some \<lparr>includeParents = True,
       knockknock = Some \<lparr>excludes = Some [''flat''], limit = None\<rparr>, path = None\<rparr>) emptyCaches =
     Some (Thrown (Error ''Could not resolve base directory as file was missing''), emptyCaches) \<and>
   scan flatEnv (Some \<lparr>includeParents = True,
       knockknock = Some \<lparr>excludes = Some [''flat''], limit = None\<rparr>, path = None\<rparr>) emptyCaches =
     Some (Rejected (Error ''Could not resolve base directory as file was missing''), emptyCaches)"
proof -
  let ?g = "Some \<lparr>includeParents = True,
       knockknock = Some \<lparr>excludes = Some [''flat''], limit = None\<rparr>, path = None\<rparr>"
  have p: "path (parseOptions ?g) = None"
    by (simp add: parseOptions_def)
  have f: "findCaller flatEnv (parseOptions ?g) = None"
    by (simp add: parseOptions_def findCaller_def flatEnv_def flatWhoIsThere_def)
  show ?thesis
    using missing_source_file [OF p f, of emptyCaches] p f by simp
qed

lemma resolvePackageFromPath_includeParents:
  "resolvePackageFromPath E (opts\<lparr>includeParents := flag\<rparr>) = resolvePackageFromPath E opts"
  by (simp add: resolvePackageFromPath_def cong: option.case_cong sum.case_cong)

lemma resolvePackageFromCaller_includeParents:
  "resolvePackageFromCaller E (opts\<lparr>includeParents := flag\<rparr>) = resolvePackageFromCaller E opts"
  by (simp add: resolvePackageFromCaller_def findCaller_def)

text \<open>
  C9. When a file path was determined and no package owns it, the base directory is the
  path itself if \<^verbatim>\<open>fs.stat\<close> says it is a directory and its parent directory if it says
  it is not, and the option \<^verbatim>\<open>includeParents\<close> changes neither the base directory nor
  the scan.
\<close>

theorem unpackaged_base_directory:
  assumes "(if path opts \<noteq> None then resolvePackageFromPath E opts
            else resolvePackageFromCaller E opts) = Inr (Some target, None)"
  shows "(isDirectory E target = Inr isDir \<longrightarrow>
            resolveBaseDirectory E opts c =
              Some (Inr (Some (if isDir then target else dirname target)), c)) \<and>
         resolveBaseDirectory E (opts\<lparr>includeParents := flag\<rparr>) c = resolveBaseDirectory E opts c \<and>
         PacScan_scan E (opts\<lparr>includeParents := flag\<rparr>) c = PacScan_scan E opts c"
proof -
  have same: "(if path (opts\<lparr>includeParents := flag\<rparr>) \<noteq> None
                 then resolvePackageFromPath E (opts\<lparr>includeParents := flag\<rparr>)
               else resolvePackageFromCaller E (opts\<lparr>includeParents := flag\<rparr>)) =
              Inr (Some target, None)"
    using assms
    by (auto simp: resolvePackageFromPath_includeParents resolvePackageFromCaller_includeParents
        split: if_splits)
  have base: "resolveBaseDirectory E opts c =
      (case isDirectory E target of
         Inl e \<Rightarrow> Some (Inl e, c)
       | Inr isDir \<Rightarrow> Some (Inr (Some (if isDir then target else dirname target)), c))"
    unfolding resolveBaseDirectory_def using assms by simp
  have base': "resolveBaseDirectory E (opts\<lparr>includeParents := flag\<rparr>) c =
      (case isDirectory E target of
         Inl e \<Rightarrow> Some (Inl e, c)
       | Inr isDir \<Rightarrow> Some (Inr (Some (if isDir then target else dirname target)), c))"
    unfolding resolveBaseDirectory_def using same by simp
  show ?thesis
    using base base' by (simp add: PacScan_scan_def)
qed

theorem unpackaged_base_directory_witness:
  "resolveBaseDirectory flatEnv
     \<lparr>includeParents = False, knockknock = None, path = Some ''/elsewhere/index.js''\<rparr> emptyCaches =
     Some (Inr (Some ''/elsewhere''), emptyCaches) \<and>
   resolveBaseDirectory flatEnv
     \<lparr>includeParents = True, knockknock = None, path = Some ''/elsewhere/index.js''\<rparr> emptyCaches =
     Some (Inr (Some ''/elsewhere''), emptyCaches)"
proof -
  let ?opts = "\<lparr>includeParents = False, knockknock = None, path = Some ''/elsewhere/index.js''\<rparr>"
  have r: "(if path ?opts \<noteq> None then resolvePackageFromPath flatEnv ?opts
            else resolvePackageFromCaller flatEnv ?opts) = Inr (Some ''/elsewhere/index.js'', None)"
    by code_simp
  have d: "isDirectory flatEnv ''/elsewhere/index.js'' = Inr False"
    by code_simp
  have n: "dirname ''/elsewhere/index.js'' = ''/elsewhere''"
    by code_simp
  show ?thesis
    using unpackaged_base_directory [OF r, of False emptyCaches True] d n by simp
qed

section \<open>The climb\<close>

lemma startsWithAt_iff: "startsWithAt s \<longleftrightarrow> (\<exists>rest. s = CHR ''@'' # rest)"
  by (cases s) (auto simp: startsWithAt_def)

text \<open>
  C7. In the climb, when the name of the candidate's parent directory begins with \<^verbatim>\<open>@\<close>,
  the test for \<^verbatim>\<open>node_modules\<close> is made on the name of the grandparent directory, and
  the climb goes on from there; for every other candidate it is made on the parent's
  name, whatever the grandparent is called.
\<close>

theorem climb_skips_scope_segment:
  assumes "parentPackageDirectoriesCache c dirPath = None"
    and "pkgDir E (Some dirPath) = Some child"
  shows "((\<exists>rest. basename (dirname child) = CHR ''@'' # rest) \<longrightarrow>
            findBaseDirectory E c dirPath =
              (if basename (dirname (dirname child)) = ''node_modules''
               then Option.bind (findBaseDirectory E c (dirname (dirname child)))
                      (keepCandidate child)
               else Some (Some child,
                      c\<lparr>parentPackageDirectoriesCache :=
                          (parentPackageDirectoriesCache c)(dirPath \<mapsto> child)\<rparr>))) \<and>
         (\<not> (\<exists>rest. basename (dirname child) = CHR ''@'' # rest) \<longrightarrow>
            findBaseDirectory E c dirPath =
              (if basename (dirname child) = ''node_modules''
               then Option.bind (findBaseDirectory E c (dirname child)) (keepCandidate child)
               else Some (Some child,
                      c\<lparr>parentPackageDirectoriesCache :=
                          (parentPackageDirectoriesCache c)(dirPath \<mapsto> child)\<rparr>)))"
proof -
  have scoped: "climbTarget child =
      (dirname (dirname child), basename (dirname (dirname child)))"
    if "\<exists>rest. basename (dirname child) = CHR ''@'' # rest"
    using that by (simp add: climbTarget_def Let_def startsWithAt_iff)
  have plain: "climbTarget child = (dirname child, basename (dirname child))"
    if "\<not> (\<exists>rest. basename (dirname child) = CHR ''@'' # rest)"
    using that by (simp add: climbTarget_def Let_def startsWithAt_iff)
  have unfolded: "findBaseDirectory E c dirPath =
      (if snd (climbTarget child) = ''node_modules''
       then Option.bind (findBaseDirectory E c (fst (climbTarget child))) (keepCandidate child)
       else Some (Some child,
              c\<lparr>parentPackageDirectoriesCache :=
                  (parentPackageDirectoriesCache c)(dirPath \<mapsto> child)\<rparr>))"
    using assms by (subst findBaseDirectory.simps) (simp add: findPackageDirectory_def)
  show ?thesis
    using scoped plain unfolded by auto
qed

theorem climb_skips_scope_segment_witness:
  "basename (dirname ''/fixtures/flat/node_modules/@fu/fizz'') = ''@fu'' \<and>
   basename (dirname (dirname ''/fixtures/flat/node_modules/@fu/fizz'')) = ''node_modules'' \<and>
   findBaseDirectory flatEnv emptyCaches ''/fixtures/flat/node_modules/@fu/fizz'' =
     Option.bind (findBaseDirectory flatEnv emptyCaches ''/fixtures/flat/node_modules'')
       (keepCandidate ''/fixtures/flat/node_modules/@fu/fizz'') \<and>
   basename (dirname ''/fixtures/flat/node_modules/lib/pkg'') = ''lib'' \<and>
   basename (dirname (dirname ''/fixtures/flat/node_modules/lib/pkg'')) = ''node_modules'' \<and>
   findBaseDirectory strayEnv emptyCaches ''/fixtures/flat/node_modules/lib/pkg'' =
     Some (Some ''/fixtures/flat/node_modules/lib/pkg'',
       emptyCaches\<lparr>parentPackageDirectoriesCache :=
         [''/fixtures/flat/node_modules/lib/pkg'' \<mapsto> ''/fixtures/flat/node_modules/lib/pkg'']\<rparr>)"
proof -
  have m: "parentPackageDirectoriesCache emptyCaches d = None" for d
    by (simp add: emptyCaches_def)
  have p: "pkgDir flatEnv (Some ''/fixtures/flat/node_modules/@fu/fizz'') =
      Some ''/fixtures/flat/node_modules/@fu/fizz''"
    by code_simp
  have s: "basename (dirname ''/fixtures/flat/node_modules/@fu/fizz'') = ''@fu''"
    by code_simp
  have g: "dirname (dirname ''/fixtures/flat/node_modules/@fu/fizz'') = ''/fixtures/flat/node_modules''"
    by code_simp
  have b: "basename ''/fixtures/flat/node_modules'' = ''node_modules''"
    by code_simp
  have p': "pkgDir strayEnv (Some ''/fixtures/flat/node_modules/lib/pkg'') =
      Some ''/fixtures/flat/node_modules/lib/pkg''"
    by code_simp
  have s': "basename (dirname ''/fixtures/flat/node_modules/lib/pkg'') = ''lib''"
    by code_simp
  have g': "basename (dirname (dirname ''/fixtures/flat/node_modules/lib/pkg'')) = ''node_modules''"
    by code_simp
  from climb_skips_scope_segment [OF m p] s g b
  have scoped: "findBaseDirectory flatEnv emptyCaches ''/fixtures/flat/node_modules/@fu/fizz'' =
     Option.bind (findBaseDirectory flatEnv emptyCaches ''/fixtures/flat/node_modules'')
       (keepCandidate ''/fixtures/flat/node_modules/@fu/fizz'')"
    by simp
  from climb_skips_scope_segment [OF m p'] s'
  have stray: "findBaseDirectory strayEnv emptyCaches ''/fixtures/flat/node_modules/lib/pkg'' =
     Some (Some ''/fixtures/flat/node_modules/lib/pkg'',
       emptyCaches\<lparr>parentPackageDirectoriesCache :=
         [''/fixtures/flat/node_modules/lib/pkg'' \<mapsto> ''/fixtures/flat/node_modules/lib/pkg'']\<rparr>)"
    by (simp add: emptyCaches_def)
  from scoped stray s g b s' g' show ?thesis
    by simp
qed

text \<open>
  C8. When the climb recurses and the step above finds no package directory, the climb
  answers with the candidate found before the recursion; once a candidate exists the
  answer is never \<^verbatim>\<open>null\<close>.
\<close>

theorem climb_keeps_candidate:
  assumes "pkgDir E (Some dirPath) = Some child"
  shows "(\<forall>c'. findBaseDirectory E c dirPath \<noteq> Some (None, c')) \<and>
         (parentPackageDirectoriesCache c dirPath = None \<and>
          snd (climbTarget child) = ''node_modules'' \<longrightarrow>
            (\<forall>c'. findBaseDirectory E c (fst (climbTarget child)) = Some (None, c') \<longrightarrow>
                  findBaseDirectory E c dirPath = Some (Some child, c')) \<and>
            (parentPackageDirectoriesCache c (fst (climbTarget child)) = None \<and>
             pkgDir E (Some (fst (climbTarget child))) = None \<longrightarrow>
                  findBaseDirectory E c dirPath = Some (Some child, c)))"
proof -
  have never: "findBaseDirectory E c dirPath \<noteq> Some (None, c')" for c'
    using assms
    by (subst findBaseDirectory.simps)
       (auto simp: findPackageDirectory_def keepCandidate_def Option.bind_eq_Some_conv
             split: option.splits)
  have above: "findBaseDirectory E c (fst (climbTarget child)) = Some (None, c)"
    if "parentPackageDirectoriesCache c (fst (climbTarget child)) = None"
      and "pkgDir E (Some (fst (climbTarget child))) = None"
    using that by (subst findBaseDirectory.simps) (simp add: findPackageDirectory_def)
  have step: "findBaseDirectory E c dirPath = Some (Some child, c')"
    if "parentPackageDirectoriesCache c dirPath = None"
      and "snd (climbTarget child) = ''node_modules''"
      and "findBaseDirectory E c (fst (climbTarget child)) = Some (None, c')" for c'
    using that assms
    by (subst findBaseDirectory.simps) (simp add: findPackageDirectory_def keepCandidate_def)
  show ?thesis
    using never above step by blast
qed

theorem climb_keeps_candidate_witness:
  "findBaseDirectory orphanEnv emptyCaches ''/fixtures/unpackaged/node_modules/foo'' =
     Some (Some ''/fixtures/unpackaged/node_modules/foo'', emptyCaches)"
proof -
  have p: "pkgDir orphanEnv (Some ''/fixtures/unpackaged/node_modules/foo'') =
      Some ''/fixtures/unpackaged/node_modules/foo''"
    by code_simp
  have t: "climbTarget ''/fixtures/unpackaged/node_modules/foo'' =
      (''/fixtures/unpackaged/node_modules'', ''node_modules'')"
    by code_simp
  have n: "pkgDir orphanEnv (Some ''/fixtures/unpackaged/node_modules'') = None"
    by code_simp
  show ?thesis
    using climb_keeps_candidate [OF p, of emptyCaches] t n by (simp add: emptyCaches_def)
qed

text \<open>
  C3. After a climb the cache of climbs should hold the final answer under the directory
  the climb was started from, also when the climb recursed. A climb started at
  \<^verbatim>\<open>flat/node_modules/foo\<close> recurses through \<^verbatim>\<open>node_modules\<close> and ends at \<^verbatim>\<open>flat\<close>; the
  only entry written is the one of the inner call, keyed by the \<^verbatim>\<open>node_modules\<close>
  directory, because the recursive branch returns before line 320: the cache holds
  nothing for the directory the climb was started from.
\<close>

theorem climb_start_not_cached:
  "findBaseDirectory flatEnv emptyCaches ''/fixtures/flat/node_modules/foo'' =
     Some (Some ''/fixtures/flat'',
       emptyCaches\<lparr>parentPackageDirectoriesCache :=
         [''/fixtures/flat/node_modules'' \<mapsto> ''/fixtures/flat'']\<rparr>) \<and>
   parentPackageDirectoriesCache
     (emptyCaches\<lparr>parentPackageDirectoriesCache :=
         [''/fixtures/flat/node_modules'' \<mapsto> ''/fixtures/flat'']\<rparr>)
     ''/fixtures/flat/node_modules/foo'' = None"
proof -
  have p1: "pkgDir flatEnv (Some ''/fixtures/flat/node_modules/foo'') =
      Some ''/fixtures/flat/node_modules/foo''"
    by code_simp
  have t1: "climbTarget ''/fixtures/flat/node_modules/foo'' =
      (''/fixtures/flat/node_modules'', ''node_modules'')"
    by code_simp
  have p2: "pkgDir flatEnv (Some ''/fixtures/flat/node_modules'') = Some ''/fixtures/flat''"
    by code_simp
  have t2: "climbTarget ''/fixtures/flat'' = (''/fixtures'', ''fixtures'')"
    by code_simp
  have up: "findBaseDirectory flatEnv emptyCaches ''/fixtures/flat/node_modules'' =
      Some (Some ''/fixtures/flat'',
        emptyCaches\<lparr>parentPackageDirectoriesCache :=
          [''/fixtures/flat/node_modules'' \<mapsto> ''/fixtures/flat'']\<rparr>)"
    unfolding emptyCaches_def
    by (subst findBaseDirectory.simps) (simp add: findPackageDirectory_def p2 t2)
  have "findBaseDirectory flatEnv emptyCaches ''/fixtures/flat/node_modules/foo'' =
      Some (Some ''/fixtures/flat'',
        emptyCaches\<lparr>parentPackageDirectoriesCache :=
          [''/fixtures/flat/node_modules'' \<mapsto> ''/fixtures/flat'']\<rparr>)"
    using up unfolding emptyCaches_def
    by (subst findBaseDirectory.simps) (simp add: findPackageDirectory_def p1 t1 keepCandidate_def)
  then show ?thesis
    by (simp add: emptyCaches_def)
qed

section \<open>Consistent caches\<close>

lemma cachesConsistent_empty: "cachesConsistent E emptyCaches"
  by (simp add: cachesConsistent_def emptyCaches_def)

lemma keepCandidate_snd: "keepCandidate child z = Some y \<Longrightarrow> snd y = snd z"
  by (auto simp: keepCandidate_def split: option.splits)

lemma cachesConsistent_store:
  assumes "cachesConsistent E c" and "pkgDir E (Some d) = Some child"
    and "snd (climbTarget child) \<noteq> ''node_modules''"
  shows "cachesConsistent E
           (c\<lparr>parentPackageDirectoriesCache := (parentPackageDirectoriesCache c)(d \<mapsto> child)\<rparr>)"
  using assms by (auto simp: cachesConsistent_def)

lemma findBaseDirectory_consistent:
  assumes "findBaseDirectory E c d = Some y"
  shows "cachesConsistent E c \<longrightarrow> cachesConsistent E (snd y)"
proof (rule findBaseDirectory.raw_induct
    [where P = "\<lambda>E c d y. cachesConsistent E c \<longrightarrow> cachesConsistent E (snd y)", OF _ assms],
    goal_cases)
  case (1 climb E c d y)
  show ?case
  proof
    assume ok: "cachesConsistent E c"
    show "cachesConsistent E (snd y)"
    proof (cases "parentPackageDirectoriesCache c d")
      case (Some cached)
      with 1(2) ok show ?thesis by auto
    next
      case miss: None
      show ?thesis
      proof (cases "pkgDir E (Some d)")
        case None
        with 1(2) miss ok show ?thesis by (auto simp: findPackageDirectory_def)
      next
        case (Some child)
        show ?thesis
        proof (cases "snd (climbTarget child) = ''node_modules''")
          case True
          with 1(2) miss Some obtain z where
            z: "climb E c (fst (climbTarget child)) = Some z" and k: "keepCandidate child z = Some y"
            by (auto simp: findPackageDirectory_def Option.bind_eq_Some_conv)
          from 1(1) [OF z] ok have "cachesConsistent E (snd z)" by simp
          with keepCandidate_snd [OF k] show ?thesis by simp
        next
          case False
          with 1(2) miss Some have
            "y = (Some child,
                  c\<lparr>parentPackageDirectoriesCache := (parentPackageDirectoriesCache c)(d \<mapsto> child)\<rparr>)"
            by (auto simp: findPackageDirectory_def)
          with cachesConsistent_store [OF ok Some False] show ?thesis by simp
        qed
      qed
    qed
  qed
qed

lemma resolveBaseDirectory_consistent:
  assumes "resolveBaseDirectory E opts c = Some (r, c1)" and "cachesConsistent E c"
  shows "cachesConsistent E c1"
proof -
  have "c1 = c \<or> (\<exists>d y. findBaseDirectory E c d = Some y \<and> c1 = snd y)"
    using assms(1) unfolding resolveBaseDirectory_def
    by (auto split: sum.splits option.splits if_splits prod.splits)
  with assms(2) findBaseDirectory_consistent show ?thesis
    by blast
qed

lemma findAvailablePackagePaths_hit:
  "availablePackagesCache c d = Some filePaths \<Longrightarrow>
     findAvailablePackagePaths E c d = (Inr filePaths, c)"
  by (simp add: findAvailablePackagePaths_def)

lemma findAvailablePackagePaths_miss:
  assumes "availablePackagesCache c d = None"
  shows "fst (findAvailablePackagePaths E c d) = fst (findAvailablePackagePaths E emptyCaches d)"
    and "snd (findAvailablePackagePaths E c d) =
           (case fst (findAvailablePackagePaths E emptyCaches d) of
              Inl e \<Rightarrow> c
            | Inr joined \<Rightarrow>
                c\<lparr>availablePackagesCache := (availablePackagesCache c)(d \<mapsto> joined)\<rparr>)"
  using assms
  by (auto simp: findAvailablePackagePaths_def emptyCaches_def Let_def split: sum.splits)

lemma findAvailablePackagePaths_consistent:
  assumes "cachesConsistent E c"
  shows "fst (findAvailablePackagePaths E c d) = fst (findAvailablePackagePaths E emptyCaches d) \<and>
         cachesConsistent E (snd (findAvailablePackagePaths E c d))"
proof (cases "availablePackagesCache c d")
  case None
  from findAvailablePackagePaths_miss [OF None, of E] assms show ?thesis
    by (auto simp: cachesConsistent_def split: sum.splits)
next
  case (Some filePaths)
  with assms have "fst (findAvailablePackagePaths E emptyCaches d) = Inr filePaths"
    by (simp add: cachesConsistent_def)
  with findAvailablePackagePaths_hit [OF Some, of E] assms show ?thesis
    by simp
qed

lemma scanDirectory_consistent:
  assumes "cachesConsistent E c"
  shows "fst (scanDirectory E c d) = fst (scanDirectory E emptyCaches d) \<and>
         cachesConsistent E (snd (scanDirectory E c d))"
proof -
  have eq: "fst (scanDirectory E k d) =
      (case fst (findAvailablePackagePaths E k d) of Inl e \<Rightarrow> Inl e
       | Inr filePaths \<Rightarrow> readPackages E filePaths)" for k
    by (auto simp: scanDirectory_def split: prod.splits sum.splits)
  have sn: "snd (scanDirectory E c d) = snd (findAvailablePackagePaths E c d)"
    by (auto simp: scanDirectory_def split: prod.splits sum.splits)
  from findAvailablePackagePaths_consistent [OF assms, of d] show ?thesis
    by (simp add: eq sn)
qed

lemma readPackages_map:
  "readPackages E filePaths = Inr pkgs \<Longrightarrow>
     map Inr pkgs = map (\<lambda>filePath. getPackage E (dirname filePath)) filePaths"
  by (induction filePaths arbitrary: pkgs) (auto split: sum.splits)

lemma scanDirectory_fresh:
  assumes "fst (scanDirectory E emptyCaches (Some D)) = Inr pkgs"
  shows "\<exists>found. findPackagePathsSync E patterns (Some D) [] = Inr found \<and>
           map Inr pkgs =
             map (\<lambda>rel. getPackage E (dirname (path_join D rel)))
               (sort (if isPackageDirectory E (Some D) then ''package.json'' # found else found))"
proof -
  from assms obtain filePaths where
    f: "fst (findAvailablePackagePaths E emptyCaches (Some D)) = Inr filePaths"
    and r: "readPackages E filePaths = Inr pkgs"
    by (auto simp: scanDirectory_def split: prod.splits sum.splits)
  from f obtain found where
    g: "findPackagePathsSync E patterns (Some D) [] = Inr found"
    and j: "filePaths = map (path_join D)
        (sort (if isPackageDirectory E (Some D) then ''package.json'' # found else found))"
    by (auto simp: findAvailablePackagePaths_def emptyCaches_def Let_def split: sum.splits)
  from readPackages_map [OF r] j have
    "map Inr pkgs = map (\<lambda>rel. getPackage E (dirname (path_join D rel)))
       (sort (if isPackageDirectory E (Some D) then ''package.json'' # found else found))"
    by (simp add: comp_def)
  with g show ?thesis by blast
qed

lemma scan_records:
  assumes "cachesConsistent E c"
    and "resolveBaseDirectory E opts c = Some (Inr (Some D), c1)"
    and "PacScan_scan E opts c = Some (Inr pkgs, c2)"
  shows "\<exists>found. findPackagePathsSync E patterns (Some D) [] = Inr found \<and>
           map Inr pkgs =
             map (\<lambda>rel. getPackage E (dirname (path_join D rel)))
               (sort (if isPackageDirectory E (Some D) then ''package.json'' # found else found))"
proof -
  have ok1: "cachesConsistent E c1"
    using resolveBaseDirectory_consistent [OF assms(2,1)] .
  from assms(2,3) have "fst (scanDirectory E c1 (Some D)) = Inr pkgs"
    by (simp add: PacScan_scan_def)
  with scanDirectory_consistent [OF ok1, of "Some D"] have
    "fst (scanDirectory E emptyCaches (Some D)) = Inr pkgs" by simp
  then show ?thesis by (rule scanDirectory_fresh)
qed

section \<open>The enumeration and the scan\<close>

lemma outcome_eq:
  "(case x of Inl e \<Rightarrow> Thrown e | Inr p \<Rightarrow> Returned p) = Returned pkgs \<longleftrightarrow> x = Inr pkgs"
  "(case x of Inl e \<Rightarrow> Rejected e | Inr p \<Rightarrow> Resolved p) = Resolved pkgs \<longleftrightarrow> x = Inr pkgs"
  by (cases x; simp)+

lemma entry_points:
  "sync E given c = Some (Returned pkgs, c2) \<longleftrightarrow>
     PacScan_scan E (parseOptions given) c = Some (Inr pkgs, c2)"
  "scan E given c = Some (Resolved pkgs, c2) \<longleftrightarrow>
     PacScan_scan E (parseOptions given) c = Some (Inr pkgs, c2)"
  by (cases "PacScan_scan E (parseOptions given) c"; auto simp: sync_def scan_def outcome_eq)+


lemma sort_greatest: "\<forall>y\<in>set xs. y \<le> x \<Longrightarrow> sort (x # xs) = sort xs @ [x]"
  by (simp add: sorted_insort_is_snoc)

lemma sort_least: "\<forall>y\<in>set xs. x \<le> y \<Longrightarrow> sort (x # xs) = x # sort xs"
  by (simp add: insort_is_Cons)



lemma insort_split:
  "sorted ys \<Longrightarrow> insort x ys = [y\<leftarrow>ys. y < x] @ x # [y\<leftarrow>ys. x \<le> y]"
proof (induction ys)
  case Nil
  show ?case by simp
next
  case (Cons y ys)
  show ?case
  proof (cases "x \<le> y")
    case True
    with Cons.prems have "\<forall>z\<in>set (y # ys). x \<le> z"
      by auto
    then have "[z\<leftarrow>y # ys. z < x] = []" "[z\<leftarrow>y # ys. x \<le> z] = y # ys"
      by (auto simp: filter_empty_conv filter_id_conv)
    with True show ?thesis by simp
  next
    case False
    with Cons show ?thesis by auto
  qed
qed

lemma sort_Cons_split:
  "sort (x # xs) = sort [y\<leftarrow>xs. y < x] @ x # sort [y\<leftarrow>xs. x \<le> y]"
proof -
  have "sort (x # xs) = insort x (sort xs)"
    by simp
  also have "\<dots> = [y\<leftarrow>sort xs. y < x] @ x # [y\<leftarrow>sort xs. x \<le> y]"
    by (rule insort_split) simp
  finally show ?thesis
    by (simp only: filter_sort)
qed

lemma mixed_base:
  "\<exists>c1. resolveBaseDirectory mixedEnv (parseOptions (Some mixedOptions)) emptyCaches =
     Some (Inr (Some ''/fixtures/mixed''), c1)"
proof -
  have "map_option fst (resolveBaseDirectory mixedEnv (parseOptions (Some mixedOptions))
      emptyCaches) = Some (Inr (Some ''/fixtures/mixed''))"
    by code_simp
  then show ?thesis by auto
qed

lemma mixed_sync:
  "\<exists>c2. sync mixedEnv (Some mixedOptions) emptyCaches = Some (Returned mixedExpected, c2)"
proof -
  have "map_option fst (sync mixedEnv (Some mixedOptions) emptyCaches) =
      Some (Returned mixedExpected)"
    by code_simp
  then show ?thesis by auto
qed

text \<open>
  C6. The records of a scan come in the order of their manifest paths relative to the
  base directory, sorted unit by unit. For the fixture \<^verbatim>\<open>flat\<close> the scan from the base
  package's own file gives exactly seven records: \<^verbatim>\<open>@baz/buzz\<close>, \<^verbatim>\<open>@baz/fizz\<close>,
  \<^verbatim>\<open>@fu/buzz\<close>, \<^verbatim>\<open>@fu/fizz\<close>, \<^verbatim>\<open>bar\<close>, \<^verbatim>\<open>foo\<close>, and the base package last.
\<close>

theorem scan_in_manifest_order:
  "(cachesConsistent E c \<longrightarrow>
    resolveBaseDirectory E (parseOptions given) c = Some (Inr (Some D), c1) \<longrightarrow>
    sync E given c = Some (Returned pkgs, c2) \<or> scan E given c = Some (Resolved pkgs, c2) \<longrightarrow>
      (\<exists>found. findPackagePathsSync E patterns (Some D) [] = Inr found \<and>
         (let rels = sort (if isPackageDirectory E (Some D) then ''package.json'' # found
                           else found)
          in sorted rels \<and>
             map Inr pkgs = map (\<lambda>rel. getPackage E (dirname (path_join D rel))) rels))) \<and>
   map_option fst (sync flatEnv None emptyCaches) = Some (Returned flatExpected) \<and>
   map_option fst (scan flatEnv None emptyCaches) = Some (Resolved flatExpected)"
proof -
  have flatSync: "map_option fst (sync flatEnv None emptyCaches) = Some (Returned flatExpected)"
    by code_simp
  have flatScan: "map_option fst (scan flatEnv None emptyCaches) = Some (Resolved flatExpected)"
    by code_simp
  have general: "\<exists>found. findPackagePathsSync E patterns (Some D) [] = Inr found \<and>
         (let rels = sort (if isPackageDirectory E (Some D) then ''package.json'' # found
                           else found)
          in sorted rels \<and>
             map Inr pkgs = map (\<lambda>rel. getPackage E (dirname (path_join D rel))) rels)"
    if ok: "cachesConsistent E c"
      and base: "resolveBaseDirectory E (parseOptions given) c = Some (Inr (Some D), c1)"
      and ret: "sync E given c = Some (Returned pkgs, c2) \<or>
                scan E given c = Some (Resolved pkgs, c2)"
  proof -
    from ret have "PacScan_scan E (parseOptions given) c = Some (Inr pkgs, c2)"
      by (auto simp: entry_points)
    from scan_records [OF ok base this] show ?thesis
      by (auto simp: Let_def)
  qed
  show ?thesis
    using general flatSync flatScan by blast
qed

theorem scan_in_manifest_order_witness:
  "\<exists>found. findPackagePathsSync flatEnv patterns (Some ''/fixtures/flat'') [] = Inr found \<and>
     sorted (sort (''package.json'' # found)) \<and>
     map Inr flatExpected =
       map (\<lambda>rel. getPackage flatEnv (dirname (path_join ''/fixtures/flat'' rel)))
         (sort (''package.json'' # found))"
proof -
  have ok: "cachesConsistent flatEnv emptyCaches"
    by (rule cachesConsistent_empty)
  have base: "resolveBaseDirectory flatEnv (parseOptions None) emptyCaches =
      Some (Inr (Some ''/fixtures/flat''), emptyCaches)"
    by (simp add: resolveBaseDirectory_def parseOptions_def resolvePackageFromCaller_def
        findCaller_def flatEnv_def flatWhoIsThere_def flatPackage_def)
  have "map_option fst (sync flatEnv None emptyCaches) = Some (Returned flatExpected)"
    by code_simp
  then obtain c2 where ret: "sync flatEnv None emptyCaches = Some (Returned flatExpected, c2)"
    by auto
  have isPkg: "isPackageDirectory flatEnv (Some ''/fixtures/flat'')"
    by code_simp
  from scan_in_manifest_order [of flatEnv emptyCaches None "''/fixtures/flat''" emptyCaches
      flatExpected c2] ok base ret isPkg
  show ?thesis
    by (auto simp: Let_def)
qed

text \<open>
  C1, as the claim states it, fails on the fixture \<^verbatim>\<open>flat\<close>: the base directory is a
  package directory, and the record of its own manifest is the last element of the
  result, not the first.
\<close>

theorem base_package_first_counterexample:
  "isPackageDirectory flatEnv (Some ''/fixtures/flat'') \<and>
   resolveBaseDirectory flatEnv (parseOptions None) emptyCaches =
     Some (Inr (Some ''/fixtures/flat''), emptyCaches) \<and>
   getPackage flatEnv ''/fixtures/flat'' = Inr flatPackage \<and>
   map_option fst (sync flatEnv None emptyCaches) = Some (Returned flatExpected) \<and>
   hd flatExpected \<noteq> flatPackage \<and>
   last flatExpected = flatPackage"
proof -
  have "isPackageDirectory flatEnv (Some ''/fixtures/flat'')"
    by code_simp
  moreover have "resolveBaseDirectory flatEnv (parseOptions None) emptyCaches =
      Some (Inr (Some ''/fixtures/flat''), emptyCaches)"
    by (simp add: resolveBaseDirectory_def parseOptions_def resolvePackageFromCaller_def
        findCaller_def flatEnv_def flatWhoIsThere_def flatPackage_def)
  moreover have "getPackage flatEnv ''/fixtures/flat'' = Inr flatPackage"
    by code_simp
  moreover have "map_option fst (sync flatEnv None emptyCaches) = Some (Returned flatExpected)"
    by code_simp
  moreover have "hd flatExpected \<noteq> flatPackage"
    by code_simp
  moreover have "last flatExpected = flatPackage"
    by code_simp
  ultimately show ?thesis
    by blast
qed

text \<open>
  C1, amended. When the base directory is a package directory, the record of its own
  manifest is an element of the result, placed where \<^verbatim>\<open>package.json\<close> falls among the
  sorted relative manifest paths: before it come the records of the paths found that
  sort below \<^verbatim>\<open>package.json\<close>, after it those of the other paths found. So it is the
  last element when every path found sorts below \<^verbatim>\<open>package.json\<close> (as every path
  starting with \<^verbatim>\<open>node_modules/\<close> does), and the first one when no path found sorts
  below it.
\<close>

theorem base_package_position:
  assumes ok: "cachesConsistent E c"
    and base: "resolveBaseDirectory E (parseOptions given) c = Some (Inr (Some D), c1)"
    and isPkg: "isPackageDirectory E (Some D)"
    and found: "findPackagePathsSync E patterns (Some D) [] = Inr found"
    and ret: "sync E given c = Some (Returned pkgs, c2) \<or>
              scan E given c = Some (Resolved pkgs, c2)"
  shows "\<exists>own. getPackage E (dirname (path_join D ''package.json'')) = Inr own \<and>
           own \<in> set pkgs \<and>
           (let below = sort [rel\<leftarrow>found. rel < ''package.json''];
                above = sort [rel\<leftarrow>found. ''package.json'' \<le> rel]
            in length below < length pkgs \<and>
               pkgs ! length below = own \<and>
               map Inr (take (length below) pkgs) =
                 map (\<lambda>rel. getPackage E (dirname (path_join D rel))) below \<and>
               map Inr (drop (Suc (length below)) pkgs) =
                 map (\<lambda>rel. getPackage E (dirname (path_join D rel))) above) \<and>
           ((\<forall>rel\<in>set found. rel \<le> ''package.json'') \<longrightarrow> last pkgs = own) \<and>
           ((\<forall>rel\<in>set found. ''package.json'' \<le> rel) \<longrightarrow> hd pkgs = own)"
proof -
  define g where "g = (\<lambda>rel. getPackage E (dirname (path_join D rel)))"
  define below where "below = sort [rel\<leftarrow>found. rel < ''package.json'']"
  define above where "above = sort [rel\<leftarrow>found. ''package.json'' \<le> rel]"
  from ret have "PacScan_scan E (parseOptions given) c = Some (Inr pkgs, c2)"
    by (auto simp: entry_points)
  from scan_records [OF ok base this] obtain found' where
    f': "findPackagePathsSync E patterns (Some D) [] = Inr found'"
    and m: "map Inr pkgs =
      map g (sort (if isPackageDirectory E (Some D) then ''package.json'' # found' else found'))"
    unfolding g_def by blast
  from f' found have "found' = found"
    by simp
  with m isPkg have shape: "map Inr pkgs = map g (sort (''package.json'' # found))"
    by (simp only: if_True)
  then have parts: "map Inr pkgs = map g below @ g ''package.json'' # map g above"
    by (simp only: sort_Cons_split below_def above_def map_append list.map)
  have len: "length pkgs = length below + Suc (length above)"
    using arg_cong [OF parts, of length] by simp
  then have n: "length below < length pkgs"
    by simp
  have "map Inr pkgs ! length below = g ''package.json''"
    by (simp only: parts) (simp add: nth_append)
  with n have own: "g ''package.json'' = Inr (pkgs ! length below)"
    by simp
  have mem: "pkgs ! length below \<in> set pkgs"
    using n by simp
  have tk: "map Inr (take (length below) pkgs) = map g below"
    using arg_cong [OF parts, of "take (length below)"] by (simp add: take_map)
  have dr: "map Inr (drop (Suc (length below)) pkgs) = map g above"
    using arg_cong [OF parts, of "drop (Suc (length below))"] by (simp add: drop_map)
  have ne: "pkgs \<noteq> []"
    using n by auto
  have la: "last pkgs = pkgs ! length below" if "\<forall>rel\<in>set found. rel \<le> ''package.json''"
  proof -
    from shape have "map Inr pkgs = map g (sort found @ [''package.json''])"
      by (simp only: sort_greatest [OF that])
    then have "map Inr pkgs = map g (sort found) @ [Inr (pkgs ! length below)]"
      by (simp only: map_append list.map own)
    then have "last (map Inr pkgs) = last (map g (sort found) @ [Inr (pkgs ! length below)])"
      by (rule arg_cong)
    then have "last (map Inr pkgs) = (Inr (pkgs ! length below) :: js_error + package)"
      by (simp only: last_snoc)
    with ne show ?thesis
      by (simp add: last_map)
  qed
  have fi: "hd pkgs = pkgs ! length below" if "\<forall>rel\<in>set found. ''package.json'' \<le> rel"
  proof -
    from shape have "map Inr pkgs = map g (''package.json'' # sort found)"
      by (simp only: sort_least [OF that])
    then have "map Inr pkgs = Inr (pkgs ! length below) # map g (sort found)"
      by (simp only: list.map own)
    then have "hd (map Inr pkgs) = hd (Inr (pkgs ! length below) # map g (sort found))"
      by (rule arg_cong)
    then have "hd (map Inr pkgs) = (Inr (pkgs ! length below) :: js_error + package)"
      by (simp only: list.sel)
    with ne show ?thesis
      by (simp add: hd_map)
  qed
  from own mem n tk dr la fi show ?thesis
    unfolding g_def below_def above_def Let_def by blast
qed

theorem base_package_position_witness:
  "isPackageDirectory mixedEnv (Some ''/fixtures/mixed'') \<and>
   getPackage mixedEnv (dirname (path_join ''/fixtures/mixed'' ''package.json'')) =
     Inr mixedPackage \<and>
   length (sort [rel\<leftarrow>[''zz/node_modules/y/package.json'', ''apps/node_modules/x/package.json''].
      rel < ''package.json'']) = 1 \<and>
   mixedExpected ! 1 = mixedPackage \<and>
   mixedPackage \<in> set mixedExpected"
proof -
  have isPkg: "isPackageDirectory mixedEnv (Some ''/fixtures/mixed'')"
    by code_simp
  have found: "findPackagePathsSync mixedEnv patterns (Some ''/fixtures/mixed'') [] =
      Inr [''zz/node_modules/y/package.json'', ''apps/node_modules/x/package.json'']"
    by code_simp
  have own: "getPackage mixedEnv (dirname (path_join ''/fixtures/mixed'' ''package.json'')) =
      Inr mixedPackage"
    by code_simp
  have one: "length (sort [rel\<leftarrow>[''zz/node_modules/y/package.json'',
      ''apps/node_modules/x/package.json'']. rel < ''package.json'']) = 1"
    by code_simp
  from mixed_base obtain c1 where
    base: "resolveBaseDirectory mixedEnv (parseOptions (Some mixedOptions)) emptyCaches =
      Some (Inr (Some ''/fixtures/mixed''), c1)" by blast
  from mixed_sync obtain c2 where
    ret: "sync mixedEnv (Some mixedOptions) emptyCaches = Some (Returned mixedExpected, c2) \<or>
          scan mixedEnv (Some mixedOptions) emptyCaches = Some (Resolved mixedExpected, c2)"
    by blast
  from base_package_position [OF cachesConsistent_empty base isPkg found ret] own one isPkg
  show ?thesis
    by (auto simp: Let_def)
qed


section \<open>Manifest paths and their directories\<close>






























section \<open>The climb comes back\<close>

lemma isAbsolute_nonempty: "isAbsolute p \<Longrightarrow> p \<noteq> []"
  by (auto simp: isAbsolute_def)

lemma dirname_absolute: "isAbsolute p \<Longrightarrow> isAbsolute (dirname p)"
  by (auto simp: isAbsolute_def dirname_def isSep_def split: list.splits)

lemma length_dropWhile_sep:
  "dropWhile P (dropWhile Q xs) = y # ys \<Longrightarrow> length ys < length xs"
proof -
  assume a: "dropWhile P (dropWhile Q xs) = y # ys"
  have "length (dropWhile P (dropWhile Q xs)) \<le> length xs"
    by (meson length_dropWhile_le order_trans)
  with a show ?thesis by simp
qed

lemma dirname_length_le: "p \<noteq> [] \<Longrightarrow> length (dirname p) \<le> length p"
  by (auto simp: dirname_def Suc_le_eq split: list.splits dest!: length_dropWhile_sep)

lemma basename_special:
  "basename ''.'' = ''.''" "basename ''/'' = []" "basename ''//'' = []"
  by (simp_all add: basename_def isSep_def)

lemma dirname_shorter:
  assumes "basename (dirname p) = ''node_modules''"
  shows "length (dirname p) < length p"
proof (cases p)
  case Nil
  with assms show ?thesis by (simp add: dirname_def basename_special)
next
  case (Cons c0 rest)
  show ?thesis
  proof (cases "dropWhile (\<lambda>ch. \<not> isSep ch) (dropWhile isSep (rev rest))")
    case Nil
    with Cons assms show ?thesis
      by (auto simp: dirname_def basename_special split: if_splits)
  next
    case (Cons sep front)
    from length_dropWhile_sep [OF Cons] have "length front < length rest"
      by simp
    with Cons \<open>p = c0 # rest\<close> assms show ?thesis
      by (auto simp: dirname_def basename_special split: if_splits)
  qed
qed

lemma climbTarget_absolute: "isAbsolute child \<Longrightarrow> isAbsolute (fst (climbTarget child))"
  by (simp add: climbTarget_def Let_def dirname_absolute)

lemma climbTarget_shorter:
  assumes "isAbsolute child" and "snd (climbTarget child) = ''node_modules''"
  shows "length (fst (climbTarget child)) < length child"
proof (cases "startsWithAt (basename (dirname child))")
  case True
  with assms(2) have "basename (dirname (dirname child)) = ''node_modules''"
    by (simp add: climbTarget_def Let_def)
  then have "length (dirname (dirname child)) < length (dirname child)"
    by (rule dirname_shorter)
  moreover have "length (dirname child) \<le> length child"
    using assms(1) by (simp add: dirname_length_le isAbsolute_nonempty)
  ultimately show ?thesis
    using True by (simp add: climbTarget_def Let_def)
next
  case False
  with assms(2) have "basename (dirname child) = ''node_modules''"
    by (simp add: climbTarget_def Let_def)
  then have "length (dirname child) < length child"
    by (rule dirname_shorter)
  with False show ?thesis
    by (simp add: climbTarget_def Let_def)
qed

lemma keepCandidate_total: "\<exists>y. keepCandidate child z = Some y"
  by (simp add: keepCandidate_def split: option.splits)

lemma findBaseDirectory_step:
  assumes "\<And>child. pkgDir E (Some d) = Some child \<Longrightarrow>
             snd (climbTarget child) = ''node_modules'' \<Longrightarrow>
             \<exists>z. findBaseDirectory E c (fst (climbTarget child)) = Some z"
  shows "\<exists>y. findBaseDirectory E c d = Some y"
proof (cases "parentPackageDirectoriesCache c d")
  case (Some cached)
  then show ?thesis
    by (subst findBaseDirectory.simps) simp
next
  case miss: None
  show ?thesis
  proof (cases "pkgDir E (Some d)")
    case None
    with miss show ?thesis
      by (subst findBaseDirectory.simps) (simp add: findPackageDirectory_def)
  next
    case (Some child)
    show ?thesis
    proof (cases "snd (climbTarget child) = ''node_modules''")
      case True
      from assms [OF Some True] obtain z where
        "findBaseDirectory E c (fst (climbTarget child)) = Some z" by blast
      with miss Some True keepCandidate_total [of child z] show ?thesis
        by (subst findBaseDirectory.simps) (auto simp: findPackageDirectory_def)
    next
      case False
      with miss Some show ?thesis
        by (subst findBaseDirectory.simps) (simp add: findPackageDirectory_def)
    qed
  qed
qed

lemma findBaseDirectory_total_absolute:
  assumes "ancestorLocator E"
  shows "isAbsolute d \<Longrightarrow> \<exists>y. findBaseDirectory E c d = Some y"
proof (induction d rule: length_induct)
  case (1 d)
  show ?case
  proof (rule findBaseDirectory_step)
    fix child
    assume found: "pkgDir E (Some d) = Some child"
      and up: "snd (climbTarget child) = ''node_modules''"
    from assms found "1.prems" have child: "isAbsolute child" "length child \<le> length d"
      by (auto simp: ancestorLocator_def)
    from climbTarget_shorter [OF child(1) up] child(2)
    have "length (fst (climbTarget child)) < length d" by simp
    with "1.IH" climbTarget_absolute [OF child(1)]
    show "\<exists>z. findBaseDirectory E c (fst (climbTarget child)) = Some z"
      by blast
  qed
qed

lemma findBaseDirectory_total:
  assumes "ancestorLocator E"
  shows "\<exists>y. findBaseDirectory E c d = Some y"
proof (rule findBaseDirectory_step)
  fix child
  assume found: "pkgDir E (Some d) = Some child"
  with assms have "isAbsolute child"
    by (auto simp: ancestorLocator_def)
  then have "isAbsolute (fst (climbTarget child))"
    by (rule climbTarget_absolute)
  then show "\<exists>z. findBaseDirectory E c (fst (climbTarget child)) = Some z"
    by (rule findBaseDirectory_total_absolute [OF assms])
qed

section \<open>Transparency of the caches\<close>

lemma keepCandidate_fst:
  "keepCandidate child z = Some y \<Longrightarrow> fst z = fst z' \<Longrightarrow>
     keepCandidate child z' = Some (fst y, snd z')"
  by (auto simp: keepCandidate_def split: option.splits)

lemma findBaseDirectory_fresh:
  assumes "findBaseDirectory E c d = Some y"
  shows "cachesConsistent E c \<longrightarrow> (\<exists>c'. findBaseDirectory E emptyCaches d = Some (fst y, c'))"
proof (rule findBaseDirectory.raw_induct
    [where P = "\<lambda>E c d y. cachesConsistent E c \<longrightarrow>
                  (\<exists>c'. findBaseDirectory E emptyCaches d = Some (fst y, c'))", OF _ assms],
    goal_cases)
  case (1 climb E c d y)
  have empty: "parentPackageDirectoriesCache emptyCaches d = None"
    by (simp add: emptyCaches_def)
  show ?case
  proof
    assume ok: "cachesConsistent E c"
    show "\<exists>c'. findBaseDirectory E emptyCaches d = Some (fst y, c')"
    proof (cases "parentPackageDirectoriesCache c d")
      case (Some cached)
      with ok have "pkgDir E (Some d) = Some cached"
        and "snd (climbTarget cached) \<noteq> ''node_modules''"
        by (auto simp: cachesConsistent_def)
      moreover from 1(2) Some have "fst y = Some cached"
        by auto
      ultimately show ?thesis
        using empty by (subst findBaseDirectory.simps) (simp add: findPackageDirectory_def)
    next
      case miss: None
      show ?thesis
      proof (cases "pkgDir E (Some d)")
        case None
        with 1(2) miss have "fst y = None"
          by (auto simp: findPackageDirectory_def)
        with None empty show ?thesis
          by (subst findBaseDirectory.simps) (simp add: findPackageDirectory_def)
      next
        case (Some child)
        show ?thesis
        proof (cases "snd (climbTarget child) = ''node_modules''")
          case True
          with 1(2) miss Some obtain z where
            z: "climb E c (fst (climbTarget child)) = Some z"
            and k: "keepCandidate child z = Some y"
            by (auto simp: findPackageDirectory_def Option.bind_eq_Some_conv)
          from 1(1) [OF z] ok obtain c' where
            up: "findBaseDirectory E emptyCaches (fst (climbTarget child)) = Some (fst z, c')"
            by blast
          from keepCandidate_fst [OF k, of "(fst z, c')"] have
            "keepCandidate child (fst z, c') = Some (fst y, c')"
            by simp
          with Some True empty up show ?thesis
            by (subst findBaseDirectory.simps) (simp add: findPackageDirectory_def)
        next
          case False
          with 1(2) miss Some have "fst y = Some child"
            by (auto simp: findPackageDirectory_def)
          with Some False empty show ?thesis
            by (subst findBaseDirectory.simps) (simp add: findPackageDirectory_def)
        qed
      qed
    qed
  qed
qed

lemma resolveBaseDirectory_fresh:
  assumes "cachesConsistent E c" and "resolveBaseDirectory E opts c = Some (r, c1)"
  shows "\<exists>c1'. resolveBaseDirectory E opts emptyCaches = Some (r, c1')"
proof -
  let ?resolved = "if path opts \<noteq> None then resolvePackageFromPath E opts
                   else resolvePackageFromCaller E opts"
  show ?thesis
  proof (cases "\<exists>target p. ?resolved = Inr (Some target, Some p) \<and> includeParents opts")
    case True
    then obtain target p where res: "?resolved = Inr (Some target, Some p)"
      and inc: "includeParents opts" by blast
    from assms(2) res inc obtain y where
      y: "findBaseDirectory E c (directory p) = Some y" and r: "r = Inr (fst y)"
      unfolding resolveBaseDirectory_def by auto
    from findBaseDirectory_fresh [OF y] assms(1) obtain c' where
      "findBaseDirectory E emptyCaches (directory p) = Some (fst y, c')" by blast
    with res inc r show ?thesis
      unfolding resolveBaseDirectory_def by simp
  next
    case False
    with assms(2) have "resolveBaseDirectory E opts emptyCaches = Some (r, emptyCaches)"
      unfolding resolveBaseDirectory_def
      by (auto split: sum.splits option.splits if_splits prod.splits)
    then show ?thesis by blast
  qed
qed

lemma PacScan_scan_fresh:
  assumes ok: "cachesConsistent E c" and run: "PacScan_scan E opts c = Some (r, c2)"
  shows "cachesConsistent E c2 \<and> (\<exists>c2'. PacScan_scan E opts emptyCaches = Some (r, c2'))"
proof -
  from run obtain b c1 where res: "resolveBaseDirectory E opts c = Some (b, c1)"
    by (auto simp: PacScan_scan_def split: option.splits)
  have ok1: "cachesConsistent E c1"
    using resolveBaseDirectory_consistent [OF res ok] .
  from resolveBaseDirectory_fresh [OF ok res] obtain c1' where
    res': "resolveBaseDirectory E opts emptyCaches = Some (b, c1')" by blast
  have ok1': "cachesConsistent E c1'"
    using resolveBaseDirectory_consistent [OF res' cachesConsistent_empty] .
  show ?thesis
  proof (cases b)
    case (Inl e)
    with run res res' ok1 show ?thesis
      by (auto simp: PacScan_scan_def)
  next
    case (Inr dirPath)
    with run res have sd: "scanDirectory E c1 dirPath = (r, c2)"
      by (simp add: PacScan_scan_def)
    from scanDirectory_consistent [OF ok1, of dirPath] sd have
      "fst (scanDirectory E emptyCaches dirPath) = r" and ok2: "cachesConsistent E c2"
      by simp_all
    with scanDirectory_consistent [OF ok1', of dirPath] have
      "fst (scanDirectory E c1' dirPath) = r"
      by simp
    then have "scanDirectory E c1' dirPath = (r, snd (scanDirectory E c1' dirPath))"
      by (metis prod.collapse)
    with Inr res' ok2 show ?thesis
      by (auto simp: PacScan_scan_def)
  qed
qed

lemma resolveBaseDirectory_total:
  assumes "ancestorLocator E"
  shows "\<exists>y. resolveBaseDirectory E opts c = Some y"
proof -
  let ?resolved = "if path opts \<noteq> None then resolvePackageFromPath E opts
                   else resolvePackageFromCaller E opts"
  show ?thesis
  proof (cases "\<exists>target p. ?resolved = Inr (Some target, Some p) \<and> includeParents opts")
    case True
    then obtain target p where res: "?resolved = Inr (Some target, Some p)"
      and inc: "includeParents opts" by blast
    from findBaseDirectory_total [OF assms, of c "directory p"] obtain y where
      "findBaseDirectory E c (directory p) = Some y" by blast
    with res inc show ?thesis
      unfolding resolveBaseDirectory_def by simp
  next
    case False
    then show ?thesis
      unfolding resolveBaseDirectory_def
      by (auto split: sum.splits option.splits if_splits prod.splits)
  qed
qed

lemma PacScan_scan_total:
  assumes "ancestorLocator E"
  shows "\<exists>y. PacScan_scan E opts c = Some y"
  using resolveBaseDirectory_total [OF assms, of opts c]
  by (auto simp: PacScan_scan_def split: sum.splits prod.splits)

lemma clearCache_empty: "clearCache c = emptyCaches"
  by (simp add: clearCache_def emptyCaches_def)

lemma PacScan_scan_same:
  assumes ok: "cachesConsistent E c0"
    and a: "PacScan_scan E opts c0 = Some (r1, c1)"
    and b: "PacScan_scan E opts c1 = Some (r2, c2)"
    and d: "PacScan_scan E opts (clearCache c2) = Some (r3, c3)"
  shows "r1 = r2 \<and> r2 = r3"
proof -
  from PacScan_scan_fresh [OF ok a] obtain k where
    ok1: "cachesConsistent E c1" and f1: "PacScan_scan E opts emptyCaches = Some (r1, k)"
    by blast
  from PacScan_scan_fresh [OF ok1 b] obtain k' where
    f2: "PacScan_scan E opts emptyCaches = Some (r2, k')"
    by blast
  from f1 f2 d show ?thesis
    by (simp add: clearCache_empty)
qed

lemma PacScan_scan_chain:
  assumes ok: "cachesConsistent E c0" and wf: "ancestorLocator E"
  shows "\<exists>r k1 k2 k3. PacScan_scan E opts c0 = Some (r, k1) \<and>
           PacScan_scan E opts k1 = Some (r, k2) \<and>
           PacScan_scan E opts (clearCache k2) = Some (r, k3)"
proof -
  from PacScan_scan_total [OF wf] obtain r1 k1 where a: "PacScan_scan E opts c0 = Some (r1, k1)"
    by fastforce
  from PacScan_scan_total [OF wf] obtain r2 k2 where b: "PacScan_scan E opts k1 = Some (r2, k2)"
    by fastforce
  from PacScan_scan_total [OF wf] obtain r3 k3 where
    d: "PacScan_scan E opts (clearCache k2) = Some (r3, k3)"
    by fastforce
  from PacScan_scan_same [OF ok a b d] a b d show ?thesis
    by blast
qed

lemma dirname_nonempty: "dirname p \<noteq> []"
  by (auto simp: dirname_def split: list.splits)

lemma nearestPackageDir_result:
  "nearestPackageDir dirs n p = Some q \<Longrightarrow>
     q \<in> set dirs \<and> (p \<noteq> [] \<longrightarrow> length q \<le> length p)"
proof (induction n arbitrary: p)
  case 0
  then show ?case by simp
next
  case (Suc n)
  show ?case
  proof (cases "p \<in> set dirs")
    case True
    with Suc.prems show ?thesis by simp
  next
    case False
    with Suc.prems have up: "nearestPackageDir dirs n (dirname p) = Some q"
      by (simp split: if_splits)
    from Suc.IH [OF up] dirname_nonempty [of p] have
      "q \<in> set dirs" and "length q \<le> length (dirname p)"
      by simp_all
    with dirname_length_le [of p] show ?thesis
      by fastforce
  qed
qed

lemma fixturePkgDir_ancestorLocator:
  assumes "pkgDir E = fixturePkgDir dirs" and "\<forall>q\<in>set dirs. isAbsolute q"
  shows "ancestorLocator E"
  unfolding ancestorLocator_def
proof (intro allI impI)
  fix d found
  assume "pkgDir E (Some d) = Some found"
  with assms(1) have "nearestPackageDir dirs (Suc (length d)) d = Some found"
    by (simp add: fixturePkgDir_def)
  from nearestPackageDir_result [OF this] assms(2)
  show "isAbsolute found \<and> (isAbsolute d \<longrightarrow> length found \<le> length d)"
    by (auto dest: isAbsolute_nonempty)
qed

lemma flat_ancestorLocator: "ancestorLocator flatEnv"
proof (rule fixturePkgDir_ancestorLocator)
  show "pkgDir flatEnv = fixturePkgDir flatDirs"
    by (simp add: flatEnv_def)
  show "\<forall>q\<in>set flatDirs. isAbsolute q"
    by (simp add: flatDirs_def isAbsolute_def isSep_def)
qed

lemma sync_Some:
  "sync E given c = Some (out, c') \<longleftrightarrow>
     (\<exists>r. PacScan_scan E (parseOptions given) c = Some (r, c') \<and>
          out = (case r of Inl e \<Rightarrow> Thrown e | Inr pkgs \<Rightarrow> Returned pkgs))"
  by (auto simp: sync_def)

lemma scan_Some:
  "scan E given c = Some (out, c') \<longleftrightarrow>
     (\<exists>r. PacScan_scan E (parseOptions given) c = Some (r, c') \<and>
          out = (case r of Inl e \<Rightarrow> Rejected e | Inr pkgs \<Rightarrow> Resolved pkgs))"
  by (auto simp: scan_def)

text \<open>
  C5. From caches that hold what the file system would give (the empty ones, or those
  left by earlier scans), a scan, the same scan again and the same scan after
  \<^verbatim>\<open>clearCache\<close> give the same outcome, in both modes; and when \<^verbatim>\<open>pkg-dir\<close> answers as
  documented, each of the three scans does give an outcome.
\<close>

theorem caches_are_transparent:
  assumes ok: "cachesConsistent E c0"
  shows "(sync E given c0 = Some (r1, c1) \<longrightarrow> sync E given c1 = Some (r2, c2) \<longrightarrow>
          sync E given (clearCache c2) = Some (r3, c3) \<longrightarrow> r1 = r2 \<and> r2 = r3) \<and>
         (scan E given c0 = Some (r1, c1) \<longrightarrow> scan E given c1 = Some (r2, c2) \<longrightarrow>
          scan E given (clearCache c2) = Some (r3, c3) \<longrightarrow> r1 = r2 \<and> r2 = r3) \<and>
         (ancestorLocator E \<longrightarrow>
            (\<exists>r k1 k2 k3. sync E given c0 = Some (r, k1) \<and> sync E given k1 = Some (r, k2) \<and>
               sync E given (clearCache k2) = Some (r, k3)) \<and>
            (\<exists>r k1 k2 k3. scan E given c0 = Some (r, k1) \<and> scan E given k1 = Some (r, k2) \<and>
               scan E given (clearCache k2) = Some (r, k3)))"
proof -
  let ?opts = "parseOptions given"
  have syncSame: "r1 = r2 \<and> r2 = r3"
    if "sync E given c0 = Some (r1, c1)" "sync E given c1 = Some (r2, c2)"
      "sync E given (clearCache c2) = Some (r3, c3)"
  proof -
    from that obtain x1 x2 x3 where
      "PacScan_scan E ?opts c0 = Some (x1, c1)" "PacScan_scan E ?opts c1 = Some (x2, c2)"
      "PacScan_scan E ?opts (clearCache c2) = Some (x3, c3)"
      and out: "r1 = (case x1 of Inl e \<Rightarrow> Thrown e | Inr pkgs \<Rightarrow> Returned pkgs)"
        "r2 = (case x2 of Inl e \<Rightarrow> Thrown e | Inr pkgs \<Rightarrow> Returned pkgs)"
        "r3 = (case x3 of Inl e \<Rightarrow> Thrown e | Inr pkgs \<Rightarrow> Returned pkgs)"
      unfolding sync_Some by blast
    with PacScan_scan_same [OF ok, of ?opts x1 c1 x2 c2 x3 c3] show ?thesis
      by simp
  qed
  have scanSame: "r1 = r2 \<and> r2 = r3"
    if "scan E given c0 = Some (r1, c1)" "scan E given c1 = Some (r2, c2)"
      "scan E given (clearCache c2) = Some (r3, c3)"
  proof -
    from that obtain x1 x2 x3 where
      "PacScan_scan E ?opts c0 = Some (x1, c1)" "PacScan_scan E ?opts c1 = Some (x2, c2)"
      "PacScan_scan E ?opts (clearCache c2) = Some (x3, c3)"
      and out: "r1 = (case x1 of Inl e \<Rightarrow> Rejected e | Inr pkgs \<Rightarrow> Resolved pkgs)"
        "r2 = (case x2 of Inl e \<Rightarrow> Rejected e | Inr pkgs \<Rightarrow> Resolved pkgs)"
        "r3 = (case x3 of Inl e \<Rightarrow> Rejected e | Inr pkgs \<Rightarrow> Resolved pkgs)"
      unfolding scan_Some by blast
    with PacScan_scan_same [OF ok, of ?opts x1 c1 x2 c2 x3 c3] show ?thesis
      by simp
  qed
  have chains:
    "(\<exists>r k1 k2 k3. sync E given c0 = Some (r, k1) \<and> sync E given k1 = Some (r, k2) \<and>
               sync E given (clearCache k2) = Some (r, k3)) \<and>
     (\<exists>r k1 k2 k3. scan E given c0 = Some (r, k1) \<and> scan E given k1 = Some (r, k2) \<and>
               scan E given (clearCache k2) = Some (r, k3))"
    if wf: "ancestorLocator E"
  proof -
    from PacScan_scan_chain [OF ok wf, of ?opts]
    obtain x k1 k2 k3 where
      "PacScan_scan E ?opts c0 = Some (x, k1)" "PacScan_scan E ?opts k1 = Some (x, k2)"
      "PacScan_scan E ?opts (clearCache k2) = Some (x, k3)"
      by blast
    then show ?thesis
      unfolding sync_Some scan_Some by blast
  qed
  from syncSame scanSame chains show ?thesis
    by blast
qed

theorem caches_are_transparent_witness:
  "\<exists>k1 k2 k3.
     sync flatEnv (Some fooOptions) emptyCaches = Some (Returned flatExpected, k1) \<and>
     sync flatEnv (Some fooOptions) k1 = Some (Returned flatExpected, k2) \<and>
     sync flatEnv (Some fooOptions) (clearCache k2) = Some (Returned flatExpected, k3)"
proof -
  have first: "map_option fst (sync flatEnv (Some fooOptions) emptyCaches) =
      Some (Returned flatExpected)"
    by code_simp
  from caches_are_transparent [OF cachesConsistent_empty, of flatEnv "Some fooOptions"]
    flat_ancestorLocator
  obtain r k1 k2 k3 where
    chain: "sync flatEnv (Some fooOptions) emptyCaches = Some (r, k1)"
      "sync flatEnv (Some fooOptions) k1 = Some (r, k2)"
      "sync flatEnv (Some fooOptions) (clearCache k2) = Some (r, k3)"
    by blast
  from first chain(1) have "r = Returned flatExpected"
    by simp
  with chain show ?thesis
    by blast
qed

end
